theory Spec2Isabelle
  imports Complex_Main "HOL-Library.AList"
begin

section \<open>The mock document store (mockFirestore.ts)\<close>

text \<open>
  The module is an in-memory document database: a global \<open>store\<close> (a JavaScript
  \<open>Map\<close> from collection path to a \<open>Map\<close> from document id to the document's
  fields), a global \<open>listeners\<close> registry (a \<open>Map\<close> from path to a \<open>Set\<close> of
  callbacks) and the functions that read and write them.

  Modelling decisions, each visible in the definitions below:
  \<^item> a JavaScript \<open>Map\<close> is an association list in insertion order: \<open>Map.get\<close> is
    \<open>map_of\<close>, \<open>Map.set\<close> is \<open>AList.update\<close> (an existing key keeps its position, a
    new key goes to the end), \<open>Map.delete\<close> is \<open>AList.delete\<close>, and
    \<open>Array.from(map.entries())\<close> is the association list itself; a \<open>Set\<close> is a list
    without repetition, in insertion order;
  \<^item> a plain object is an association list from property name to value, its
    properties in creation order (the special enumeration order of integer-like
    property names and the \<open>__proto__\<close> name are not modelled);
  \<^item> a JavaScript number is a \<open>real\<close>: arithmetic is exact, as double arithmetic
    is on the integers below \<open>2^53\<close>; rounding of doubles is not modelled;
  \<^item> the two module-level variables are the fields \<open>store\<close> and \<open>listeners\<close> of a
    state record that every function takes and returns;
  \<^item> a listener callback is opaque code: it is a number naming the callback, and
    calling it appends the pair (callback, snapshot) to the field \<open>calls\<close>. A
    callback neither throws nor calls back into the store;
  \<^item> \<open>generateId()\<close> reads \<open>Math.random\<close>: the identifier it returns is an input
    of the model;
  \<^item> a thrown \<open>Error\<close> (a rejected promise for the \<open>async\<close> functions) is
    \<open>Inl\<close> of an \<open>error\<close>; the state returned beside it is the state at the throw.
\<close>

subsection \<open>Values\<close>

record Timestamp =
  seconds :: real
  nanoseconds :: real

datatype jsval =
    JUndefined
  | JNull
  | JBool bool
  | JNum real
  | JStr string
  | JTimestamp Timestamp
  | JArr "jsval list"
  | JObj "(string \<times> jsval) list"

type_synonym DocData = "(string \<times> jsval) list"

subsection \<open>Timestamp\<close>



subsection \<open>clone\<close>

fun clone :: "jsval \<Rightarrow> jsval" where
  "clone (JTimestamp t) = JTimestamp \<lparr>seconds = seconds t, nanoseconds = nanoseconds t\<rparr>"
| "clone (JArr xs) = JArr (map clone xs)"
| "clone (JObj es) = JObj (map (\<lambda>(key, val). (key, clone val)) es)"
| "clone v = v"

text \<open>\<open>clone\<close> applied to a document's fields, which are a plain object.\<close>

definition cloneData :: "DocData \<Rightarrow> DocData" where
  "cloneData d = map (\<lambda>(key, val). (key, clone val)) d"

text \<open>The object spread \<open>{ ...current, ...extra }\<close>: the properties of \<open>current\<close>, then
  each property of \<open>extra\<close> assigned in turn.\<close>

definition spread :: "DocData \<Rightarrow> DocData \<Rightarrow> DocData" where
  "spread current extra = foldl (\<lambda>acc (key, val). AList.update key val acc) current extra"

subsection \<open>References, snapshots and the state\<close>

datatype reference = CollectionRef string | DocRef string

fun ref_path :: "reference \<Rightarrow> string" where
  "ref_path (CollectionRef p) = p"
| "ref_path (DocRef p) = p"

text \<open>A document snapshot closes over the \<open>data\<close> argument of \<open>createDocSnapshot\<close>
  (\<open>None\<close> is \<open>undefined\<close>); \<open>exists()\<close> and \<open>data()\<close> read it.\<close>

record DocSnapshot =
  ds_id :: string
  ds_data :: "DocData option"
  ds_ref :: reference

definition exists_doc :: "DocSnapshot \<Rightarrow> bool" where
  "exists_doc snap = (ds_data snap \<noteq> None)"

definition data_doc :: "DocSnapshot \<Rightarrow> DocData option" where
  "data_doc snap = map_option cloneData (ds_data snap)"

record CollectionSnapshot =
  cs_docs :: "DocSnapshot list"
  cs_size :: nat
  cs_empty :: bool
  cs_ref :: reference

definition docChanges :: "CollectionSnapshot \<Rightarrow> (string \<times> DocSnapshot) list" where
  "docChanges snap = map (\<lambda>d. (''added'', d)) (cs_docs snap)"

datatype Snapshot = OfDoc DocSnapshot | OfCollection CollectionSnapshot

type_synonym Collection = "(string \<times> DocData) list"

record State =
  store :: "(string \<times> Collection) list"
  listeners :: "(string \<times> nat list) list"
  calls :: "(nat \<times> Snapshot) list"

definition initial :: State where
  "initial = \<lparr>store = [], listeners = [], calls = []\<rparr>"

datatype error = InvalidArgument | NotFound string

subsection \<open>Store access and notification\<close>

definition ensureCollection :: "string \<Rightarrow> State \<Rightarrow> Collection \<times> State" where
  "ensureCollection path st =
     (case map_of (store st) path of
        None \<Rightarrow> ([], st\<lparr>store := AList.update path [] (store st)\<rparr>)
      | Some c \<Rightarrow> (c, st))"

text \<open>\<open>collection.set\<close> and \<open>collection.delete\<close> mutate the \<open>Map\<close> object \<open>c\<close> that
  \<open>ensureCollection path\<close> returned, which is the one the store holds under \<open>path\<close>:
  the store's entry becomes the mutated collection.\<close>

definition collection_set :: "string \<Rightarrow> Collection \<Rightarrow> string \<Rightarrow> DocData \<Rightarrow> State \<Rightarrow> State" where
  "collection_set path c ident d st =
     st\<lparr>store := AList.update path (AList.update ident d c) (store st)\<rparr>"

definition collection_delete :: "string \<Rightarrow> Collection \<Rightarrow> string \<Rightarrow> State \<Rightarrow> State" where
  "collection_delete path c ident st =
     st\<lparr>store := AList.update path (AList.delete ident c) (store st)\<rparr>"

definition notify :: "string \<Rightarrow> Snapshot \<Rightarrow> State \<Rightarrow> State" where
  "notify path snapshot st =
     (case map_of (listeners st) path of
        None \<Rightarrow> st
      | Some subs \<Rightarrow> st\<lparr>calls := calls st @ map (\<lambda>callback. (callback, snapshot)) subs\<rparr>)"

definition createDocSnapshot :: "string \<Rightarrow> string \<Rightarrow> DocData option \<Rightarrow> DocSnapshot" where
  "createDocSnapshot collectionPath ident d =
     \<lparr>ds_id = ident, ds_data = d, ds_ref = DocRef (collectionPath @ ''/'' @ ident)\<rparr>"

definition createCollectionSnapshot :: "string \<Rightarrow> State \<Rightarrow> CollectionSnapshot \<times> State" where
  "createCollectionSnapshot collectionPath st =
     (let (c, st') = ensureCollection collectionPath st;
          docs = map (\<lambda>(ident, d). createDocSnapshot collectionPath ident (Some d)) c
      in (\<lparr>cs_docs = docs, cs_size = length docs, cs_empty = (length docs = 0),
           cs_ref = CollectionRef collectionPath\<rparr>, st'))"

definition emitCollection :: "string \<Rightarrow> State \<Rightarrow> State" where
  "emitCollection collectionPath st =
     (let (snap, st') = createCollectionSnapshot collectionPath st
      in notify collectionPath (OfCollection snap) st')"

definition emitDoc :: "string \<Rightarrow> string \<Rightarrow> State \<Rightarrow> State" where
  "emitDoc collectionPath ident st =
     (let (c, st1) = ensureCollection collectionPath st;
          d = map_of c ident;
          st2 = notify (collectionPath @ ''/'' @ ident)
                  (OfDoc (createDocSnapshot collectionPath ident d)) st1
      in emitCollection collectionPath st2)"

subsection \<open>Paths\<close>

text \<open>\<open>String.prototype.split\<close> with a one-character separator, and \<open>Array.prototype.join\<close>.\<close>

fun split_on :: "char \<Rightarrow> string \<Rightarrow> string list" where
  "split_on c [] = [[]]"
| "split_on c (x # xs) =
     (if x = c then [] # split_on c xs
      else (case split_on c xs of [] \<Rightarrow> [[x]] | w # ws \<Rightarrow> (x # w) # ws))"

fun join :: "string \<Rightarrow> string list \<Rightarrow> string" where
  "join sep [] = []"
| "join sep [x] = x"
| "join sep (x # y # ys) = x @ sep @ join sep (y # ys)"

definition splitDocPath :: "string \<Rightarrow> string \<times> string" where
  "splitDocPath path =
     (let parts = filter (\<lambda>s. s \<noteq> []) (split_on CHR ''/'' path);
          ident = (if parts = [] then [] else last parts)
      in (join ''/'' (butlast parts), ident))"

text \<open>The arguments of \<open>doc(...args)\<close>: the database reference, a collection or
  document reference, or a string.\<close>

datatype arg = ADb | ARef reference | AStr string

fun isCollectionRef :: "arg \<Rightarrow> bool" where
  "isCollectionRef (ARef (CollectionRef p)) = True"
| "isCollectionRef _ = False"

fun isDbRef :: "arg \<Rightarrow> bool" where
  "isDbRef ADb = True"
| "isDbRef _ = False"

text \<open>\<open>String(x)\<close>, which is also how \<open>join\<close> converts an element: a string is itself,
  an object is \<open>[object Object]\<close>.\<close>

fun String_of :: "arg \<Rightarrow> string" where
  "String_of (AStr s) = s"
| "String_of _ = ''[object Object]''"

fun arg_path :: "arg \<Rightarrow> string" where
  "arg_path (ARef r) = ref_path r"
| "arg_path _ = ''undefined''"

definition doc :: "arg list \<Rightarrow> error + reference" where
  "doc args =
     (if length args = 2 \<and> isCollectionRef (args ! 0)
      then Inr (DocRef (arg_path (args ! 0) @ ''/'' @ String_of (args ! 1)))
      else if length args \<ge> 2 \<and> isDbRef (args ! 0)
      then Inr (DocRef (join ''/'' (map String_of (drop 1 args))))
      else Inl InvalidArgument)"

subsection \<open>Reads and writes\<close>

definition getDocs :: "string \<Rightarrow> State \<Rightarrow> (error + CollectionSnapshot) \<times> State" where
  "getDocs collectionPath st =
     (let (snap, st') = createCollectionSnapshot collectionPath st in (Inr snap, st'))"

definition getDoc :: "string \<Rightarrow> State \<Rightarrow> (error + DocSnapshot) \<times> State" where
  "getDoc docPath st =
     (let (collectionPath, ident) = splitDocPath docPath;
          (c, st') = ensureCollection collectionPath st
      in (Inr (createDocSnapshot collectionPath ident (map_of c ident)), st'))"

text \<open>\<open>newId\<close> is what \<open>generateId()\<close> returned.\<close>

definition addDoc :: "string \<Rightarrow> string \<Rightarrow> DocData \<Rightarrow> State \<Rightarrow> (error + reference) \<times> State" where
  "addDoc newId collectionPath d st =
     (let (c, st1) = ensureCollection collectionPath st;
          st2 = collection_set collectionPath c newId (cloneData d) st1;
          st3 = emitDoc collectionPath newId st2
      in (Inr (DocRef (collectionPath @ ''/'' @ newId)), st3))"

definition setDoc :: "string \<Rightarrow> DocData \<Rightarrow> bool \<Rightarrow> State \<Rightarrow> (error + unit) \<times> State" where
  "setDoc docPath d merge st =
     (let (collectionPath, ident) = splitDocPath docPath;
          (c, st1) = ensureCollection collectionPath st;
          st2 = (if merge \<and> map_of c ident \<noteq> None
                 then (let current = (case map_of c ident of Some cur \<Rightarrow> cur | None \<Rightarrow> [])
                       in collection_set collectionPath c ident (spread current (cloneData d)) st1)
                 else collection_set collectionPath c ident (cloneData d) st1)
      in (Inr (), emitDoc collectionPath ident st2))"

definition updateDoc :: "string \<Rightarrow> DocData \<Rightarrow> State \<Rightarrow> (error + unit) \<times> State" where
  "updateDoc docPath d st =
     (let (collectionPath, ident) = splitDocPath docPath;
          (c, st1) = ensureCollection collectionPath st
      in if map_of c ident = None
         then (Inl (NotFound docPath), st1)
         else (let current = (case map_of c ident of Some cur \<Rightarrow> cur | None \<Rightarrow> []);
                   st2 = collection_set collectionPath c ident (spread current (cloneData d)) st1
               in (Inr (), emitDoc collectionPath ident st2)))"

definition deleteDoc :: "string \<Rightarrow> State \<Rightarrow> (error + unit) \<times> State" where
  "deleteDoc docPath st =
     (let (collectionPath, ident) = splitDocPath docPath;
          (c, st1) = ensureCollection collectionPath st;
          st2 = collection_delete collectionPath c ident st1
      in (Inr (), emitDoc collectionPath ident st2))"

subsection \<open>Subscriptions\<close>

definition set_add :: "'a \<Rightarrow> 'a list \<Rightarrow> 'a list" where
  "set_add x xs = (if x \<in> set xs then xs else xs @ [x])"

definition onSnapshot :: "reference \<Rightarrow> nat \<Rightarrow> State \<Rightarrow> State" where
  "onSnapshot r callback st =
     (let path = ref_path r;
          st1 = (if map_of (listeners st) path = None
                 then st\<lparr>listeners := AList.update path [] (listeners st)\<rparr> else st);
          subs = (case map_of (listeners st1) path of Some s \<Rightarrow> s | None \<Rightarrow> []);
          st2 = st1\<lparr>listeners := AList.update path (set_add callback subs) (listeners st1)\<rparr>
      in (case r of
            CollectionRef p \<Rightarrow>
              (let (snap, st3) = createCollectionSnapshot path st2
               in st3\<lparr>calls := calls st3 @ [(callback, OfCollection snap)]\<rparr>)
          | DocRef p \<Rightarrow>
              (let (collectionPath, ident) = splitDocPath path;
                   (c, st3) = ensureCollection collectionPath st2
               in st3\<lparr>calls := calls st3 @
                    [(callback, OfDoc (createDocSnapshot collectionPath ident (map_of c ident)))]\<rparr>)))"

text \<open>The function that \<open>onSnapshot\<close> returns, for the path and callback it was
  called with.\<close>

definition unsubscribe :: "string \<Rightarrow> nat \<Rightarrow> State \<Rightarrow> State" where
  "unsubscribe path callback st =
     (case map_of (listeners st) path of
        None \<Rightarrow> st
      | Some subs \<Rightarrow>
          (let subs' = removeAll callback subs
           in if length subs' = 0
              then st\<lparr>listeners := AList.delete path (listeners st)\<rparr>
              else st\<lparr>listeners := AList.update path subs' (listeners st)\<rparr>))"

subsection \<open>replaceCollection\<close>

text \<open>\<open>(rawItem[idField] as string | undefined) ?? generateId()\<close>: a string is the
  identifier; \<open>undefined\<close> (also of a missing property) and \<open>null\<close> call
  \<open>generateId()\<close>. Any other value is outside the type \<open>string | undefined\<close> that
  the source gives the property and would become a \<open>Map\<close> key that is not a string:
  it is not modelled, and \<open>replaceCollection\<close> is \<open>None\<close> on such an item.\<close>

datatype IdValue = IdString string | IdNullish | IdOther

fun idValue :: "jsval option \<Rightarrow> IdValue" where
  "idValue (Some (JStr s)) = IdString s"
| "idValue None = IdNullish"
| "idValue (Some JUndefined) = IdNullish"
| "idValue (Some JNull) = IdNullish"
| "idValue (Some v) = IdOther"

text \<open>The body of \<open>items.forEach\<close>. \<open>gen k\<close> is what the \<open>k\<close>-th call of
  \<open>generateId()\<close> in this \<open>replaceCollection\<close> returns.\<close>

fun replaceItems ::
  "string \<Rightarrow> (nat \<Rightarrow> string) \<Rightarrow> nat \<Rightarrow> DocData list \<Rightarrow> Collection \<Rightarrow> Collection option" where
  "replaceItems idField gen k [] c = Some c"
| "replaceItems idField gen k (rawItem # items) c =
     (let d = AList.delete idField rawItem
      in case idValue (map_of rawItem idField) of
           IdString s \<Rightarrow> replaceItems idField gen k items (AList.update s (cloneData d) c)
         | IdNullish \<Rightarrow> replaceItems idField gen (Suc k) items (AList.update (gen k) (cloneData d) c)
         | IdOther \<Rightarrow> None)"

text \<open>\<open>idFieldOption\<close> is \<open>options.idField\<close>, \<open>None\<close> when it is not given.\<close>

definition replaceCollection ::
  "(nat \<Rightarrow> string) \<Rightarrow> string \<Rightarrow> DocData list \<Rightarrow> string option \<Rightarrow> State \<Rightarrow> State option" where
  "replaceCollection gen collectionPath items idFieldOption st =
     (let st1 = st\<lparr>store := AList.update collectionPath [] (store st)\<rparr>;
          idField = (case idFieldOption of Some f \<Rightarrow> f | None \<Rightarrow> ''id'');
          (c, st2) = ensureCollection collectionPath st1
      in case replaceItems idField gen 0 items c of
           None \<Rightarrow> None
         | Some c' \<Rightarrow>
             Some (emitCollection collectionPath
                     (st2\<lparr>store := AList.update collectionPath c' (store st2)\<rparr>)))"

subsection \<open>Observations of a state\<close>

text \<open>The collection under a path, where a path the store does not hold counts as the
  empty collection; the fields stored under a document id of a collection; the
  callbacks registered on a path.\<close>

definition documents :: "State \<Rightarrow> string \<Rightarrow> Collection" where
  "documents st path = (case map_of (store st) path of None \<Rightarrow> [] | Some c \<Rightarrow> c)"

definition stored :: "State \<Rightarrow> string \<Rightarrow> string \<Rightarrow> DocData option" where
  "stored st path ident = map_of (documents st path) ident"

definition subscribers :: "State \<Rightarrow> string \<Rightarrow> nat list" where
  "subscribers st path = (case map_of (listeners st) path of None \<Rightarrow> [] | Some subs \<Rightarrow> subs)"

subsection \<open>Sequences of calls\<close>

text \<open>A call of the module's interface with its arguments; for \<open>AddDoc\<close> the first
  argument is the identifier that \<open>generateId()\<close> returns in it, for
  \<open>ReplaceCollection\<close> the identifiers it returns there, in order. \<open>perform\<close> is the state
  after the call, whether it returned or threw; \<open>run\<close> performs a sequence of calls
  from left to right. Both are \<open>None\<close> only where \<open>replaceCollection\<close> is.\<close>

datatype call =
    AddDoc string string DocData
  | SetDoc string DocData bool
  | UpdateDoc string DocData
  | DeleteDoc string
  | GetDocs string
  | GetDoc string
  | OnSnapshot reference nat
  | Unsubscribe string nat
  | ReplaceCollection "nat \<Rightarrow> string" string "DocData list" "string option"

fun perform :: "call \<Rightarrow> State \<Rightarrow> State option" where
  "perform (AddDoc newId collectionPath d) st = Some (snd (addDoc newId collectionPath d st))"
| "perform (SetDoc docPath d merge) st = Some (snd (setDoc docPath d merge st))"
| "perform (UpdateDoc docPath d) st = Some (snd (updateDoc docPath d st))"
| "perform (DeleteDoc docPath) st = Some (snd (deleteDoc docPath st))"
| "perform (GetDocs collectionPath) st = Some (snd (getDocs collectionPath st))"
| "perform (GetDoc docPath) st = Some (snd (getDoc docPath st))"
| "perform (OnSnapshot r callback) st = Some (onSnapshot r callback st)"
| "perform (Unsubscribe path callback) st = Some (unsubscribe path callback st)"
| "perform (ReplaceCollection gen collectionPath items idFieldOption) st =
     replaceCollection gen collectionPath items idFieldOption st"

fun run :: "call list \<Rightarrow> State \<Rightarrow> State option" where
  "run [] st = Some st"
| "run (c # cs) st = (case perform c st of None \<Rightarrow> None | Some st' \<Rightarrow> run cs st')"

text \<open>The identifier that \<open>replaceCollection\<close> stores each item under: the string its
  \<open>idField\<close> property holds, else the next generated identifier.\<close>

fun itemIds :: "string \<Rightarrow> (nat \<Rightarrow> string) \<Rightarrow> nat \<Rightarrow> DocData list \<Rightarrow> string list" where
  "itemIds idField gen k [] = []"
| "itemIds idField gen k (rawItem # items) =
     (case idValue (map_of rawItem idField) of
        IdString s \<Rightarrow> s # itemIds idField gen k items
      | _ \<Rightarrow> gen k # itemIds idField gen (Suc k) items)"

text \<open>The document identifiers that a call writes into the collection \<open>path\<close>
  (\<open>updateDoc\<close> writes only to an identifier that is there already, so it adds none),
  and whether a call removes the identifier \<open>ident\<close> from it.\<close>

fun written :: "call \<Rightarrow> string \<Rightarrow> string list" where
  "written (AddDoc newId collectionPath d) path = (if collectionPath = path then [newId] else [])"
| "written (SetDoc docPath d merge) path =
     (if fst (splitDocPath docPath) = path then [snd (splitDocPath docPath)] else [])"
| "written (ReplaceCollection gen collectionPath items idFieldOption) path =
     (if collectionPath = path
      then itemIds (case idFieldOption of Some f \<Rightarrow> f | None \<Rightarrow> ''id'') gen 0 items
      else [])"
| "written c path = []"

fun removes :: "call \<Rightarrow> string \<Rightarrow> string \<Rightarrow> bool" where
  "removes (DeleteDoc docPath) path ident = (splitDocPath docPath = (path, ident))"
| "removes (ReplaceCollection gen collectionPath items idFieldOption) path ident =
     (collectionPath = path)"
| "removes c path ident = False"

fun writtenIds :: "call list \<Rightarrow> string \<Rightarrow> string list" where
  "writtenIds [] path = []"
| "writtenIds (c # cs) path = written c path @ writtenIds cs path"

text \<open>The writes that no later call of the sequence undoes.\<close>

fun liveWrites :: "call list \<Rightarrow> string \<Rightarrow> string list" where
  "liveWrites [] path = []"
| "liveWrites (c # cs) path =
     filter (\<lambda>ident. \<not> list_ex (\<lambda>c'. removes c' path ident) cs) (written c path)
     @ liveWrites cs path"

text \<open>A list without its repetitions, each element at its first occurrence.\<close>

fun first_occurrences :: "'a list \<Rightarrow> 'a list" where
  "first_occurrences [] = []"
| "first_occurrences (x # xs) = x # filter (\<lambda>y. y \<noteq> x) (first_occurrences xs)"

text \<open>The identifiers of the documents of a collection snapshot, in its order.\<close>

definition snapshotIds :: "string \<Rightarrow> State \<Rightarrow> string list" where
  "snapshotIds path st = map ds_id (cs_docs (fst (createCollectionSnapshot path st)))"

text \<open>What a document-level write does to the recorded callback invocations: from
  \<open>st\<close> to \<open>st'\<close>, the callbacks registered on the document's path are called with
  the document snapshot of \<open>st'\<close>, then those registered on the collection's path
  with the collection snapshot of \<open>st'\<close>, and nothing else is called.\<close>

definition fanout :: "State \<Rightarrow> State \<Rightarrow> string \<Rightarrow> string \<Rightarrow> bool" where
  "fanout st st' path ident =
     (calls st' = calls st
        @ map (\<lambda>callback. (callback, OfDoc (createDocSnapshot path ident (stored st' path ident))))
            (subscribers st (path @ ''/'' @ ident))
        @ map (\<lambda>callback. (callback, OfCollection (fst (createCollectionSnapshot path st'))))
            (subscribers st path))"


subsection \<open>Example states\<close>

text \<open>The store after \<open>setDoc(doc(db, "vehicles/v1"), {a: 0, b: 2})\<close> on the initial
  state.\<close>

definition oneVehicle :: State where
  "oneVehicle = snd (setDoc ''vehicles/v1'' [(''a'', JNum 0), (''b'', JNum 2)] False initial)"

text \<open>Then callback 1 subscribes to the collection \<open>vehicles\<close> and, after it, callback 2
  to the document \<open>vehicles/v1\<close>.\<close>

definition subscribed :: State where
  "subscribed =
     onSnapshot (DocRef ''vehicles/v1'') 2 (onSnapshot (CollectionRef ''vehicles'') 1 oneVehicle)"

text \<open>The callbacks called between a state and a later one, in the order of the calls.\<close>

definition invoked :: "State \<Rightarrow> State \<Rightarrow> nat list" where
  "invoked st st' = map fst (drop (length (calls st)) (calls st'))"

text \<open>A document is written, then another, then the first is deleted and written again;
  and the state after these four calls.\<close>

definition reinsertion :: "call list" where
  "reinsertion =
     [SetDoc ''vehicles/v1'' [(''vin'', JStr ''X'')] False,
      SetDoc ''vehicles/v2'' [(''vin'', JStr ''Y'')] False,
      DeleteDoc ''vehicles/v1'',
      SetDoc ''vehicles/v1'' [(''vin'', JStr ''X'')] False]"

definition reinserted :: State where
  "reinserted =
     snd (setDoc ''vehicles/v1'' [(''vin'', JStr ''X'')] False
       (snd (deleteDoc ''vehicles/v1''
         (snd (setDoc ''vehicles/v2'' [(''vin'', JStr ''Y'')] False
           (snd (setDoc ''vehicles/v1'' [(''vin'', JStr ''X'')] False initial)))))))"

text \<open>Calls that write to \<open>vehicles\<close> and only read, update, delete and subscribe in
  \<open>users\<close>.\<close>

definition elsewhere :: "call list" where
  "elsewhere =
     [SetDoc ''vehicles/v1'' [(''vin'', JStr ''X'')] False,
      UpdateDoc ''users/u1'' [(''name'', JStr ''Alex'')],
      DeleteDoc ''users/u1'',
      OnSnapshot (CollectionRef ''users'') 1]"

section \<open>Properties\<close>

subsection \<open>Timestamp arithmetic\<close>






subsection \<open>clone, paths and references\<close>

lemma clone_id: "clone v = v"
proof (induction v rule: clone.induct)
  case (3 es)
  have "map (\<lambda>(key, val). (key, clone val)) es = map (\<lambda>x. x) es"
    by (rule map_cong) (auto simp: 3)
  then show ?case by simp
qed (simp_all add: map_idI)

lemma cloneData_id: "cloneData d = d"
  by (simp add: cloneData_def clone_id)

lemma split_on_nonempty: "split_on c xs \<noteq> []"
  by (induction xs) (auto split: list.splits)

lemma split_on_append: "split_on c (xs @ c # ys) = split_on c xs @ split_on c ys"
  by (induction xs) (auto split: list.splits simp: split_on_nonempty)

lemma split_on_free: "c \<notin> set w \<Longrightarrow> split_on c w = [w]"
  by (induction w) (auto split: list.splits)

lemma split_on_join:
  "segs \<noteq> [] \<Longrightarrow> \<forall>s \<in> set segs. c \<notin> set s \<Longrightarrow> split_on c (join [c] segs) = segs"
proof (induction "[c]" segs rule: join.induct)
  case 1 then show ?case by simp
next
  case (2 x) then show ?case by (simp add: split_on_free)
next
  case (3 x y ys)
  then show ?case by (simp add: split_on_append split_on_free)
qed

lemma splitDocPath_leading: "splitDocPath (CHR ''/'' # p) = splitDocPath p"
  by (simp add: splitDocPath_def)

lemma splitDocPath_trailing: "splitDocPath (p @ ''/'') = splitDocPath p"
  using split_on_append [of "CHR ''/''" p "[]"] by (simp add: splitDocPath_def)

lemma splitDocPath_join:
  assumes "\<forall>s \<in> set (segs @ [i]). s \<noteq> [] \<and> CHR ''/'' \<notin> set s"
  shows "splitDocPath (join ''/'' (segs @ [i])) = (join ''/'' segs, i)"
proof -
  have "split_on CHR ''/'' (join ''/'' (segs @ [i])) = segs @ [i]"
    using assms by (intro split_on_join) auto
  moreover have "filter (\<lambda>s. s \<noteq> []) (segs @ [i]) = segs @ [i]"
    using assms by (intro filter_True) auto
  ultimately show ?thesis by (simp add: splitDocPath_def)
qed

lemma doc_cases:
  "doc args = (case args of
       [ARef (CollectionRef p), a] \<Rightarrow> Inr (DocRef (p @ ''/'' @ String_of a))
     | ADb # a # rest \<Rightarrow> Inr (DocRef (join ''/'' (map String_of (a # rest))))
     | _ \<Rightarrow> Inl InvalidArgument)"
  by (auto simp: doc_def split: list.splits arg.splits reference.splits)

subsection \<open>Closed forms of store access and notification\<close>

lemma ensureCollection_eq:
  "ensureCollection p st = (documents st p, st\<lparr>store := AList.update p (documents st p) (store st)\<rparr>)"
  by (auto simp: ensureCollection_def documents_def update_triv split: option.splits)

lemma documents_store_update [simp]:
  "documents (st\<lparr>store := AList.update p c (store st)\<rparr>) q = (if q = p then c else documents st q)"
  by (simp add: documents_def update_conv')

lemma documents_calls_update [simp]: "documents (st\<lparr>calls := x\<rparr>) q = documents st q"
  by (simp add: documents_def)

lemma documents_listeners_update [simp]: "documents (st\<lparr>listeners := x\<rparr>) q = documents st q"
  by (simp add: documents_def)

lemma subscribers_store_update [simp]: "subscribers (st\<lparr>store := x\<rparr>) q = subscribers st q"
  by (simp add: subscribers_def)

lemma subscribers_calls_update [simp]: "subscribers (st\<lparr>calls := x\<rparr>) q = subscribers st q"
  by (simp add: subscribers_def)

lemma notify_eq:
  "notify p snap st = st\<lparr>calls := calls st @ map (\<lambda>callback. (callback, snap)) (subscribers st p)\<rparr>"
  by (simp add: notify_def subscribers_def split: option.splits)

lemma createCollectionSnapshot_eq:
  "createCollectionSnapshot p st =
     (\<lparr>cs_docs = map (\<lambda>(ident, d). createDocSnapshot p ident (Some d)) (documents st p),
       cs_size = length (documents st p), cs_empty = (documents st p = []),
       cs_ref = CollectionRef p\<rparr>,
      st\<lparr>store := AList.update p (documents st p) (store st)\<rparr>)"
  by (simp add: createCollectionSnapshot_def ensureCollection_eq)

lemma emitCollection_eq:
  "emitCollection p st =
     st\<lparr>store := AList.update p (documents st p) (store st),
        calls := calls st @ map (\<lambda>callback. (callback, OfCollection (fst (createCollectionSnapshot p st))))
                   (subscribers st p)\<rparr>"
  by (simp add: emitCollection_def createCollectionSnapshot_eq notify_eq)

lemma emitDoc_eq:
  "emitDoc p i st =
     st\<lparr>store := AList.update p (documents st p) (store st),
        calls := calls st
          @ map (\<lambda>callback. (callback, OfDoc (createDocSnapshot p i (stored st p i))))
                   (subscribers st (p @ ''/'' @ i))
          @ map (\<lambda>callback. (callback, OfCollection (fst (createCollectionSnapshot p st))))
                   (subscribers st p)\<rparr>"
  by (simp add: emitDoc_def ensureCollection_eq emitCollection_eq notify_eq stored_def
      createCollectionSnapshot_eq)

lemma stored_store_update [simp]:
  "stored (st\<lparr>store := AList.update p c (store st)\<rparr>) q i = (if q = p then map_of c i else stored st q i)"
  by (simp add: stored_def)

lemma stored_calls_update [simp]: "stored (st\<lparr>calls := x\<rparr>) q i = stored st q i"
  by (simp add: stored_def)

lemma emitDoc_documents [simp]: "documents (emitDoc p i st) q = documents st q"
  by (simp add: emitDoc_eq)

lemma emitDoc_listeners [simp]: "listeners (emitDoc p i st) = listeners st"
  by (simp add: emitDoc_eq)

lemma emitDoc_subscribers [simp]: "subscribers (emitDoc p i st) q = subscribers st q"
  by (simp add: subscribers_def)

lemma emitDoc_stored [simp]: "stored (emitDoc p i st) q j = stored st q j"
  by (simp add: stored_def)

lemma emitDoc_has [simp]: "map_of (store (emitDoc p i st)) p = Some (documents st p)"
  by (simp add: emitDoc_eq update_conv')

lemma collectionSnapshot_documents:
  "documents st' p = documents st p \<Longrightarrow>
   fst (createCollectionSnapshot p st') = fst (createCollectionSnapshot p st)"
  by (simp add: createCollectionSnapshot_eq)

lemma emitDoc_calls:
  "calls (emitDoc p i st) = calls st
     @ map (\<lambda>callback. (callback, OfDoc (createDocSnapshot p i (stored (emitDoc p i st) p i))))
         (subscribers st (p @ ''/'' @ i))
     @ map (\<lambda>callback. (callback, OfCollection (fst (createCollectionSnapshot p (emitDoc p i st)))))
         (subscribers st p)"
  using collectionSnapshot_documents [of "emitDoc p i st" p st]
  by (simp add: emitDoc_eq [of p i st, THEN arg_cong, of calls])

text \<open>Closed forms of the four writes.\<close>

lemma addDoc_eq:
  "addDoc newId p d st =
     (Inr (DocRef (p @ ''/'' @ newId)),
      emitDoc p newId (st\<lparr>store := AList.update p (AList.update newId d (documents st p)) (store st)\<rparr>))"
  by (simp add: addDoc_def ensureCollection_eq collection_set_def cloneData_id)

lemma setDoc_eq:
  "splitDocPath path = (p, i) \<Longrightarrow>
   setDoc path d merge st =
     (Inr (),
      emitDoc p i (st\<lparr>store := AList.update p
         (AList.update i (case stored st p i of
                            Some cur \<Rightarrow> if merge then spread cur d else d
                          | None \<Rightarrow> d) (documents st p)) (store st)\<rparr>))"
  by (auto simp: setDoc_def ensureCollection_eq collection_set_def cloneData_id stored_def
      split: option.splits)

lemma updateDoc_eq:
  "splitDocPath path = (p, i) \<Longrightarrow>
   updateDoc path d st =
     (case stored st p i of
        None \<Rightarrow> (Inl (NotFound path), st\<lparr>store := AList.update p (documents st p) (store st)\<rparr>)
      | Some cur \<Rightarrow>
          (Inr (), emitDoc p i (st\<lparr>store := AList.update p
              (AList.update i (spread cur d) (documents st p)) (store st)\<rparr>)))"
  by (auto simp: updateDoc_def ensureCollection_eq collection_set_def cloneData_id stored_def
      split: option.splits)

lemma deleteDoc_eq:
  "splitDocPath path = (p, i) \<Longrightarrow>
   deleteDoc path st =
     (Inr (), emitDoc p i (st\<lparr>store := AList.update p (AList.delete i (documents st p)) (store st)\<rparr>))"
  by (simp add: deleteDoc_def ensureCollection_eq collection_delete_def)





lemma update_absent: "map_of al k = None \<Longrightarrow> AList.update k v al = al @ [(k, v)]"
  by (induction al) (auto split: if_splits)

lemma stored_None_documents:
  "map_of (store st) p = None \<Longrightarrow> stored st p i = None"
  by (simp add: stored_def documents_def)

lemma setDoc_stored:
  "splitDocPath path = (p, i) \<Longrightarrow>
   stored (snd (setDoc path d merge st)) q j =
     (if q = p \<and> j = i
      then Some (case stored st p i of Some cur \<Rightarrow> if merge then spread cur d else d | None \<Rightarrow> d)
      else stored st q j)"
  by (auto simp: setDoc_eq update_conv' stored_def)

lemma setDoc_has:
  "splitDocPath path = (p, i) \<Longrightarrow> map_of (store (snd (setDoc path d merge st))) p \<noteq> None"
  by (simp add: setDoc_eq)

lemmas eval_defs = oneVehicle_def initial_def setDoc_def updateDoc_def splitDocPath_def
  ensureCollection_def collection_set_def emitDoc_def emitCollection_def notify_def
  createCollectionSnapshot_def createDocSnapshot_def onSnapshot_def set_add_def cloneData_def
  spread_def Let_def

lemma emitDoc_fanout:
  "calls st0 = calls st \<Longrightarrow> listeners st0 = listeners st \<Longrightarrow> fanout st (emitDoc p i st0) p i"
  using emitDoc_calls [of p i st0] by (simp add: fanout_def subscribers_def)

subsection \<open>First occurrences\<close>

lemma set_first_occurrences [simp]: "set (first_occurrences xs) = set xs"
  by (induction xs) auto

lemma distinct_first_occurrences [simp]: "distinct (first_occurrences xs)"
  by (induction xs) auto

lemma first_occurrences_filter: "first_occurrences (filter P xs) = filter P (first_occurrences xs)"
proof (induction xs)
  case Nil
  then show ?case by simp
next
  case (Cons x xs)
  show ?case
  proof (cases "P x")
    case True
    then show ?thesis using Cons by (auto intro: filter_cong)
  next
    case False
    have "filter P (filter (\<lambda>y. y \<noteq> x) (first_occurrences xs)) = filter P (first_occurrences xs)"
      using False by (auto intro: filter_cong)
    then show ?thesis using Cons False by simp
  qed
qed

lemma first_occurrences_distinct: "distinct xs \<Longrightarrow> first_occurrences xs = xs"
  by (induction xs) (auto intro: filter_True)

lemma first_occurrences_append:
  "first_occurrences (xs @ ys) = first_occurrences xs @ filter (\<lambda>y. y \<notin> set xs) (first_occurrences ys)"
proof (induction xs)
  case Nil
  then show ?case by simp
next
  case (Cons x xs)
  have "filter (\<lambda>y. y \<noteq> x) (filter (\<lambda>y. y \<notin> set xs) (first_occurrences ys))
      = filter (\<lambda>y. y \<notin> set (x # xs)) (first_occurrences ys)"
    by (auto simp: filter_filter intro: filter_cong)
  then show ?case using Cons by simp
qed

lemma first_occurrences_idem_append:
  "first_occurrences (first_occurrences xs @ ys) = first_occurrences (xs @ ys)"
  by (simp add: first_occurrences_append first_occurrences_distinct)

lemma update_keys_first_occurrences:
  "distinct (map fst c) \<Longrightarrow> map fst (AList.update k v c) = first_occurrences (map fst c @ [k])"
  by (auto simp: update_keys first_occurrences_append first_occurrences_distinct)

subsection \<open>replaceCollection\<close>

lemma length_itemIds [simp]: "length (itemIds f gen k items) = length items"
  by (induction items arbitrary: k) (auto split: IdValue.splits)



lemma foldl_update_keys:
  "distinct (map fst c) \<Longrightarrow>
   map fst (foldl (\<lambda>acc (ident, d). AList.update ident d acc) c es)
     = first_occurrences (map fst c @ map fst es)"
proof (induction es arbitrary: c)
  case Nil
  then show ?case by (simp add: first_occurrences_distinct)
next
  case (Cons e es)
  obtain k v where e: "e = (k, v)" by (cases e)
  have "map fst (foldl (\<lambda>acc (ident, d). AList.update ident d acc) (AList.update k v c) es)
      = first_occurrences (map fst (AList.update k v c) @ map fst es)"
    using Cons.prems by (intro Cons.IH) (rule distinct_update)
  also have "\<dots> = first_occurrences ((map fst c @ [k]) @ map fst es)"
    using Cons.prems
    by (simp only: update_keys_first_occurrences first_occurrences_idem_append)
  finally show ?case by (simp add: e)
qed



lemma emitCollection_documents [simp]: "documents (emitCollection p st) q = documents st q"
  by (simp add: emitCollection_eq)

lemma emitCollection_listeners [simp]: "listeners (emitCollection p st) = listeners st"
  by (simp add: emitCollection_eq)


lemma replaceCollection_eq:
  "replaceCollection gen p items idf st =
     (case replaceItems (case idf of Some f \<Rightarrow> f | None \<Rightarrow> ''id'') gen 0 items [] of
        None \<Rightarrow> None
      | Some c' \<Rightarrow> Some (emitCollection p (st\<lparr>store := AList.update p c' (store st)\<rparr>)))"
  by (simp add: replaceCollection_def ensureCollection_eq split: option.splits)


lemma getDocs_eq:
  "fst (getDocs p st) =
     Inr \<lparr>cs_docs = map (\<lambda>(ident, d). createDocSnapshot p ident (Some d)) (documents st p),
          cs_size = length (documents st p), cs_empty = (documents st p = []),
          cs_ref = CollectionRef p\<rparr>"
  by (simp add: getDocs_def createCollectionSnapshot_eq)

subsection \<open>What each call does to the documents of a collection\<close>

lemma getDocs_documents [simp]: "documents (snd (getDocs p st)) q = documents st q"
  by (simp add: getDocs_def createCollectionSnapshot_eq)

lemma getDoc_documents [simp]: "documents (snd (getDoc path st)) q = documents st q"
  by (simp add: getDoc_def ensureCollection_eq split: prod.splits)

lemma onSnapshot_documents [simp]: "documents (onSnapshot r callback st) q = documents st q"
  by (cases r)
    (auto simp: onSnapshot_def createCollectionSnapshot_def ensureCollection_def documents_def
      Let_def update_conv' split: prod.splits option.splits)

lemma unsubscribe_documents [simp]: "documents (unsubscribe path callback st) q = documents st q"
  by (simp add: unsubscribe_def Let_def split: option.splits)

lemma replaceItems_Some:
  "replaceItems f gen k items c = Some c' \<Longrightarrow>
   c' = foldl (\<lambda>acc (ident, d). AList.update ident d acc) c
          (zip (itemIds f gen k items) (map (AList.delete f) items))"
  by (induction items arbitrary: k c) (auto simp: cloneData_id Let_def split: IdValue.splits)

lemma snapshotIds_eq: "snapshotIds p st = map fst (documents st p)"
  by (simp add: snapshotIds_def createCollectionSnapshot_eq createDocSnapshot_def
      split_def comp_def)

lemma removeAll_filter: "removeAll k xs = filter (\<lambda>x. x \<noteq> k) xs"
  by (induction xs) auto

lemma perform_keys:
  assumes "perform c st = Some st'" and "distinct (map fst (documents st p))"
  shows "map fst (documents st' p) =
     first_occurrences (filter (\<lambda>ident. \<not> removes c p ident) (map fst (documents st p))
                        @ written c p)"
proof (cases c)
  case (AddDoc newId q d)
  then show ?thesis
    using assms
    by (auto simp: addDoc_eq update_keys_first_occurrences first_occurrences_distinct)
next
  case (SetDoc path d merge)
  obtain q i where s: "splitDocPath path = (q, i)" by (cases "splitDocPath path")
  show ?thesis
    using assms
    by (auto simp: SetDoc s setDoc_eq [OF s] update_keys_first_occurrences
        first_occurrences_distinct)
next
  case (UpdateDoc path d)
  obtain q i where s: "splitDocPath path = (q, i)" by (cases "splitDocPath path")
  show ?thesis
  proof (cases "stored st q i")
    case None
    then show ?thesis
      using assms by (auto simp: UpdateDoc updateDoc_eq [OF s] first_occurrences_distinct)
  next
    case (Some cur)
    then have "i \<in> set (map fst (documents st q))"
      using map_of_SomeD [of "documents st q" i cur] by (force simp: stored_def)
    then have "map fst (AList.update i (spread cur d) (documents st q)) = map fst (documents st q)"
      by (simp only: update_keys if_True)
    then show ?thesis
      using assms Some
      by (auto simp: UpdateDoc updateDoc_eq [OF s] first_occurrences_distinct)
  qed
next
  case (DeleteDoc path)
  obtain q i where s: "splitDocPath path = (q, i)" by (cases "splitDocPath path")
  have "map fst (AList.delete i (documents st p)) = filter (\<lambda>ident. i \<noteq> ident) (map fst (documents st p))"
    by (auto simp: delete_keys removeAll_filter intro: filter_cong)
  then show ?thesis
    using assms
    by (auto simp: DeleteDoc s deleteDoc_eq [OF s] first_occurrences_distinct distinct_delete)
next
  case (GetDocs q)
  then show ?thesis using assms by (auto simp: first_occurrences_distinct)
next
  case (GetDoc path)
  then show ?thesis using assms by (auto simp: first_occurrences_distinct)
next
  case (OnSnapshot r callback)
  then show ?thesis using assms by (auto simp: first_occurrences_distinct)
next
  case (Unsubscribe path callback)
  then show ?thesis using assms by (auto simp: first_occurrences_distinct)
next
  case (ReplaceCollection gen q items idf)
  define f where "f = (case idf of Some x \<Rightarrow> x | None \<Rightarrow> ''id'')"
  obtain c' where c': "replaceItems f gen 0 items [] = Some c'"
    and st': "st' = emitCollection q (st\<lparr>store := AList.update q c' (store st)\<rparr>)"
    using assms(1)
    by (auto simp: ReplaceCollection replaceCollection_eq f_def split: option.splits)
  have "map fst c' = first_occurrences (itemIds f gen 0 items)"
    using foldl_update_keys [of "[]" "zip (itemIds f gen 0 items) (map (AList.delete f) items)"]
    by (simp add: replaceItems_Some [OF c'])
  then show ?thesis
    using assms(2)
    by (auto simp: ReplaceCollection st' f_def first_occurrences_distinct)
qed

lemma perform_distinct:
  assumes "perform c st = Some st'" and "distinct (map fst (documents st p))"
  shows "distinct (map fst (documents st' p))"
  by (simp add: perform_keys [OF assms])

lemma run_snoc:
  "run (cs @ [c]) st = (case run cs st of None \<Rightarrow> None | Some st' \<Rightarrow> perform c st')"
  by (induction cs arbitrary: st) (auto split: option.splits)

lemma liveWrites_snoc:
  "liveWrites (cs @ [c]) p = filter (\<lambda>ident. \<not> removes c p ident) (liveWrites cs p) @ written c p"
  by (induction cs) (auto intro: filter_cong)

lemma run_keys:
  "run cs initial = Some st \<Longrightarrow>
   map fst (documents st p) = first_occurrences (liveWrites cs p)"
proof (induction cs arbitrary: st rule: rev_induct)
  case Nil
  then show ?case by (auto simp: documents_def initial_def)
next
  case (snoc c cs)
  obtain st0 where r: "run cs initial = Some st0" and c: "perform c st0 = Some st"
    using snoc.prems by (auto simp: run_snoc split: option.splits)
  have k: "map fst (documents st0 p) = first_occurrences (liveWrites cs p)"
    by (rule snoc.IH [OF r])
  then have d: "distinct (map fst (documents st0 p))" by simp
  have "map fst (documents st p) =
      first_occurrences (filter (\<lambda>ident. \<not> removes c p ident) (first_occurrences (liveWrites cs p))
                         @ written c p)"
    using perform_keys [OF c d] by (simp add: k)
  also have "\<dots> = first_occurrences (liveWrites (cs @ [c]) p)"
    by (simp only: liveWrites_snoc first_occurrences_filter [symmetric]
        first_occurrences_idem_append)
  finally show ?case .
qed

lemma run_unwritten:
  "run cs st = Some st' \<Longrightarrow> \<forall>c \<in> set cs. written c p = [] \<Longrightarrow> documents st p = [] \<Longrightarrow>
   documents st' p = []"
proof (induction cs arbitrary: st)
  case Nil
  then show ?case by simp
next
  case (Cons c cs)
  obtain st0 where c: "perform c st = Some st0" and r: "run cs st0 = Some st'"
    using Cons.prems(1) by (auto split: option.splits)
  have "map fst (documents st0 p) = []"
    using perform_keys [OF c, of p] Cons.prems by simp
  then have "documents st0 p = []" by simp
  then show ?case
    using Cons.IH [OF r] Cons.prems(2) by simp
qed

lemma liveWrites_no_removes:
  "\<forall>c \<in> set cs. \<forall>ident. \<not> removes c p ident \<Longrightarrow> liveWrites cs p = writtenIds cs p"
  by (induction cs) (auto simp: list_ex_iff intro: filter_True)

lemma update_keys_present:
  "map_of al k \<noteq> None \<Longrightarrow> map fst (AList.update k v al) = map fst al"
  by (auto simp: update_keys map_of_eq_None_iff)

lemma update_keys_absent:
  "map_of al k = None \<Longrightarrow> map fst (AList.update k v al) = map fst al @ [k]"
  by (auto simp: update_keys map_of_eq_None_iff)

subsection \<open>Facts about the example states\<close>

lemma split_on_segments: "s \<in> set (split_on c xs) \<Longrightarrow> c \<notin> set s"
  by (induction xs arbitrary: s) (auto split: list.splits if_splits)

lemma join_split_on: "join [c] (split_on c xs) = xs"
proof (induction xs)
  case Nil
  then show ?case by simp
next
  case (Cons x xs)
  show ?case
  proof (cases "x = c")
    case True
    then show ?thesis
      using Cons by (cases "split_on c xs") (auto simp: split_on_nonempty)
  next
    case False
    obtain w ws where w: "split_on c xs = w # ws"
      using split_on_nonempty [of c xs] by (cases "split_on c xs") auto
    then show ?thesis
      using Cons False by (cases ws) auto
  qed
qed

lemma split_vehicles_v1: "splitDocPath ''vehicles/v1'' = (''vehicles'', ''v1'')"
  by (simp add: splitDocPath_def)

lemma stored_initial: "stored initial p i = None"
  by (simp add: stored_def documents_def initial_def)

lemma stored_oneVehicle: "stored oneVehicle ''vehicles'' ''v1'' = Some [(''a'', JNum 0), (''b'', JNum 2)]"
  by (simp add: oneVehicle_def setDoc_stored [OF split_vehicles_v1] stored_initial)

lemma split_vehicles_v2: "splitDocPath ''vehicles/v2'' = (''vehicles'', ''v2'')"
  by (simp add: splitDocPath_def)

lemma run_reinsertion: "run reinsertion initial = Some reinserted"
  by (simp add: reinsertion_def reinserted_def)

lemma stored_reinserted:
  "stored reinserted ''vehicles'' ''v1'' = Some [(''vin'', JStr ''X'')]"
  "stored reinserted ''vehicles'' ''v2'' = Some [(''vin'', JStr ''Y'')]"
  by code_simp+

section \<open>The claims\<close>

text \<open>
  Claim C1. Let a document path split into the collection path \<open>p\<close> and the id \<open>i\<close>.
  When the collection holds no document under \<open>i\<close>, \<open>updateDoc\<close> throws the not-found
  error; when it holds one, \<open>updateDoc\<close> returns. \<open>setDoc\<close> always returns, and the
  document is there afterwards (with exactly the given fields when it was absent).
  \<open>addDoc\<close> always returns, the reference of the document under the generated
  identifier, and the given fields are stored under that identifier.
\<close>

theorem update_precondition:
  assumes "splitDocPath path = (p, i)"
  shows "(stored st p i = None \<longrightarrow> fst (updateDoc path d st) = Inl (NotFound path))
       \<and> (stored st p i \<noteq> None \<longrightarrow> fst (updateDoc path d st) = Inr ())
       \<and> fst (setDoc path d merge st) = Inr ()
       \<and> stored (snd (setDoc path d merge st)) p i \<noteq> None
       \<and> (stored st p i = None \<longrightarrow> stored (snd (setDoc path d merge st)) p i = Some d)
       \<and> fst (addDoc newId q d st) = Inr (DocRef (q @ ''/'' @ newId))
       \<and> stored (snd (addDoc newId q d st)) q newId = Some d"
  by (auto simp: updateDoc_eq [OF assms] setDoc_eq [OF assms] addDoc_eq update_conv'
      split: option.splits)

theorem update_precondition_witness:
  "fst (updateDoc ''vehicles/v1'' [(''a'', JNum 1)] initial) = Inl (NotFound ''vehicles/v1'')
   \<and> fst (updateDoc ''vehicles/v1'' [(''a'', JNum 1)] oneVehicle) = Inr ()
   \<and> fst (setDoc ''vehicles/v1'' [(''a'', JNum 1)] False initial) = Inr ()
   \<and> stored (snd (setDoc ''vehicles/v1'' [(''a'', JNum 1)] False initial)) ''vehicles'' ''v1''
       = Some [(''a'', JNum 1)]
   \<and> fst (addDoc ''k3x9'' ''vehicles'' [(''a'', JNum 1)] initial) = Inr (DocRef ''vehicles/k3x9'')"
  using update_precondition [OF split_vehicles_v1, of initial "[(''a'', JNum 1)]" False "''k3x9''" "''vehicles''"]
    update_precondition [OF split_vehicles_v1, of oneVehicle "[(''a'', JNum 1)]" False "''k3x9''" "''vehicles''"]
    stored_initial [of "''vehicles''" "''v1''"] stored_oneVehicle
  by simp



text \<open>
  Claim C3, as amended. Every document-level write (\<open>setDoc\<close>, a successful
  \<open>updateDoc\<close>, \<open>deleteDoc\<close>, \<open>addDoc\<close>) fires exactly two notifications, in this order:
  first the callbacks registered on the document's path (collection path, \<open>/\<close>, id)
  are called, in their order of registration, with the document snapshot of the state
  after the write; then the callbacks registered on the collection's path are called,
  in their order of registration, with the collection snapshot of that state. Nothing
  else is called. So with a subscriber on a collection and another on one of its
  documents, one \<open>updateDoc\<close> of that document calls each once, the document's
  subscriber first and the collection's second, whichever registered first.
\<close>

theorem notification_fanout:
  assumes "splitDocPath path = (p, i)"
  shows "fanout st (snd (setDoc path d merge st)) p i
       \<and> (stored st p i \<noteq> None \<longrightarrow> fanout st (snd (updateDoc path d st)) p i)
       \<and> fanout st (snd (deleteDoc path st)) p i
       \<and> fanout st (snd (addDoc newId q d st)) q newId"
proof -
  have "fanout st (snd (updateDoc path d st)) p i" if "stored st p i \<noteq> None"
    using that by (auto simp: updateDoc_eq [OF assms] intro!: emitDoc_fanout)
  then show ?thesis
    by (simp add: setDoc_eq [OF assms] deleteDoc_eq [OF assms] addDoc_eq emitDoc_fanout)
qed

theorem notification_fanout_witness:
  "stored subscribed ''vehicles'' ''v1'' \<noteq> None
   \<and> subscribers subscribed ''vehicles'' = [1]
   \<and> subscribers subscribed ''vehicles/v1'' = [2]
   \<and> calls (snd (updateDoc ''vehicles/v1'' [(''a'', JNum 1)] subscribed)) =
       calls subscribed @
       [(2, OfDoc \<lparr>ds_id = ''v1'', ds_data = Some [(''a'', JNum 1), (''b'', JNum 2)],
                  ds_ref = DocRef ''vehicles/v1''\<rparr>),
        (1, OfCollection
              \<lparr>cs_docs = [\<lparr>ds_id = ''v1'', ds_data = Some [(''a'', JNum 1), (''b'', JNum 2)],
                           ds_ref = DocRef ''vehicles/v1''\<rparr>],
               cs_size = 1, cs_empty = False, cs_ref = CollectionRef ''vehicles''\<rparr>)]"
proof -
  have a: "stored subscribed ''vehicles'' ''v1'' \<noteq> None"
    by (simp add: stored_def documents_def subscribed_def eval_defs)
  have b: "subscribers subscribed ''vehicles'' = [1]"
    by (simp add: subscribers_def subscribed_def eval_defs)
  have c: "subscribers subscribed ''vehicles/v1'' = [2]"
    by (simp add: subscribers_def subscribed_def eval_defs)
  have d: "stored (snd (updateDoc ''vehicles/v1'' [(''a'', JNum 1)] subscribed)) ''vehicles'' ''v1''
      = Some [(''a'', JNum 1), (''b'', JNum 2)]"
    by (simp add: stored_def documents_def subscribed_def eval_defs)
  have e: "fst (createCollectionSnapshot ''vehicles''
              (snd (updateDoc ''vehicles/v1'' [(''a'', JNum 1)] subscribed))) =
      \<lparr>cs_docs = [\<lparr>ds_id = ''v1'', ds_data = Some [(''a'', JNum 1), (''b'', JNum 2)],
                           ds_ref = DocRef ''vehicles/v1''\<rparr>],
               cs_size = 1, cs_empty = False, cs_ref = CollectionRef ''vehicles''\<rparr>"
    by (simp add: subscribed_def eval_defs)
  have "fanout subscribed (snd (updateDoc ''vehicles/v1'' [(''a'', JNum 1)] subscribed))
          ''vehicles'' ''v1''"
    using notification_fanout [OF split_vehicles_v1, of subscribed] a by blast
  then show ?thesis
    using a b c by (simp add: fanout_def d e createDocSnapshot_def)
qed

text \<open>
  Claim C3 as stated fails: with callback 1 registered on the collection and then
  callback 2 on the document, \<open>updateDoc\<close> calls 2 before 1, not in the order of
  registration.
\<close>

theorem notification_order_counterexample:
  "invoked subscribed (snd (updateDoc ''vehicles/v1'' [(''a'', JNum 1)] subscribed)) = [2, 1]
   \<and> invoked subscribed (snd (updateDoc ''vehicles/v1'' [(''a'', JNum 1)] subscribed)) \<noteq> [1, 2]"
  by (simp add: invoked_def subscribed_def eval_defs)




text \<open>
  Claim C6. \<open>splitDocPath\<close> splits the path at \<open>/\<close> and drops the empty segments;
  the last segment that is left is the document id (it is not empty and holds no
  \<open>/\<close>) and the others, joined with \<open>/\<close>, are the collection path; a path with no
  segment left gives the empty id and the empty collection path. So the path made by
  joining segments with \<open>/\<close> splits into its last segment and the join of the others,
  and a leading or a trailing \<open>/\<close> changes nothing: the path addresses the same
  document with it as without it.
\<close>

theorem splitDocPath_segments:
  "(filter (\<lambda>s. s \<noteq> []) (split_on CHR ''/'' path) = parts @ [i]
      \<longrightarrow> splitDocPath path = (join ''/'' parts, i) \<and> i \<noteq> [] \<and> CHR ''/'' \<notin> set i)
   \<and> (filter (\<lambda>s. s \<noteq> []) (split_on CHR ''/'' path) = [] \<longrightarrow> splitDocPath path = ([], []))
   \<and> ((\<forall>s \<in> set (segs @ [j]). s \<noteq> [] \<and> CHR ''/'' \<notin> set s)
      \<longrightarrow> splitDocPath (join ''/'' (segs @ [j])) = (join ''/'' segs, j))
   \<and> splitDocPath (''/'' @ path) = splitDocPath path
   \<and> splitDocPath (path @ ''/'') = splitDocPath path"
proof -
  have a: "splitDocPath path = (join ''/'' parts, i) \<and> i \<noteq> [] \<and> CHR ''/'' \<notin> set i"
    if h: "filter (\<lambda>s. s \<noteq> []) (split_on CHR ''/'' path) = parts @ [i]"
  proof -
    have "i \<in> set (filter (\<lambda>s. s \<noteq> []) (split_on CHR ''/'' path))"
      unfolding h by simp
    then have "i \<noteq> []" and "i \<in> set (split_on CHR ''/'' path)" by auto
    then show ?thesis
      using split_on_segments [of i "CHR ''/''" path] by (simp add: splitDocPath_def h)
  qed
  have b: "splitDocPath path = ([], [])"
    if "filter (\<lambda>s. s \<noteq> []) (split_on CHR ''/'' path) = []"
    using that by (simp add: splitDocPath_def)
  show ?thesis
    using a b splitDocPath_join [of segs j] splitDocPath_leading [of path]
      splitDocPath_trailing [of path]
    by simp
qed

theorem splitDocPath_segments_witness:
  "filter (\<lambda>s. s \<noteq> []) (split_on CHR ''/'' ''/vehicles/v1/'') = [''vehicles''] @ [''v1'']
   \<and> filter (\<lambda>s. s \<noteq> []) (split_on CHR ''/'' ''//'') = []
   \<and> splitDocPath ''vehicles/v1'' = (''vehicles'', ''v1'')
   \<and> splitDocPath ''/vehicles/v1/'' = (''vehicles'', ''v1'')
   \<and> splitDocPath ''//'' = ([], [])"
proof -
  have h1: "\<forall>s \<in> set ([''vehicles''] @ [''v1'']). s \<noteq> [] \<and> CHR ''/'' \<notin> set s" by simp
  have h2: "filter (\<lambda>s. s \<noteq> []) (split_on CHR ''/'' ''/vehicles/v1/'') = [''vehicles''] @ [''v1'']"
    by simp
  have h3: "filter (\<lambda>s. s \<noteq> []) (split_on CHR ''/'' ''//'') = []" by simp
  have "splitDocPath (join ''/'' ([''vehicles''] @ [''v1''])) = (join ''/'' [''vehicles''], ''v1'')"
    using splitDocPath_segments [of "[]" "[]" "[]" "[''vehicles'']" "''v1''"] h1 by blast
  moreover have "splitDocPath ''/vehicles/v1/'' = (join ''/'' [''vehicles''], ''v1'')"
    using splitDocPath_segments [of "''/vehicles/v1/''" "[''vehicles'']" "''v1''" "[]" "[]"] h2 by blast
  moreover have "splitDocPath ''//'' = ([], [])"
    using splitDocPath_segments [of "''//''" "[]" "[]" "[]" "[]"] h3 by blast
  ultimately show ?thesis using h2 h3 by simp
qed

text \<open>
  Claim C7. \<open>doc\<close> called with a collection reference and one identifier returns the
  document reference whose path is the collection path, \<open>/\<close>, the identifier;
  called with the database reference and at least one path segment it returns the
  document reference whose path joins the segments with \<open>/\<close>. It returns a reference
  exactly for these two shapes of the argument list and throws the invalid-argument
  error exactly for all others: in particular with fewer than two arguments, or when
  the first argument is neither a collection reference nor the database reference.
\<close>

theorem doc_invalid_argument:
  "doc [ARef (CollectionRef p), AStr i] = Inr (DocRef (p @ ''/'' @ i))
   \<and> (segs \<noteq> [] \<longrightarrow> doc (ADb # map AStr segs) = Inr (DocRef (join ''/'' segs)))
   \<and> ((\<exists>r. doc args = Inr r) \<longleftrightarrow>
        (\<exists>q a. args = [ARef (CollectionRef q), a]) \<or> (\<exists>a rest. args = ADb # a # rest))
   \<and> (doc args = Inl InvalidArgument \<longleftrightarrow>
        \<not> ((\<exists>q a. args = [ARef (CollectionRef q), a]) \<or> (\<exists>a rest. args = ADb # a # rest)))
   \<and> (length args < 2 \<longrightarrow> doc args = Inl InvalidArgument)
   \<and> (args = a0 # rest0 \<and> \<not> isCollectionRef a0 \<and> \<not> isDbRef a0 \<longrightarrow> doc args = Inl InvalidArgument)"
proof -
  have m: "map String_of (map AStr xs) = xs" for xs
    by (induction xs) auto
  have 1: "doc [ARef (CollectionRef p), AStr i] = Inr (DocRef (p @ ''/'' @ i))"
    by (simp add: doc_cases)
  have 2: "doc (ADb # map AStr segs) = Inr (DocRef (join ''/'' segs))" if "segs \<noteq> []"
    using that m [of "tl segs"] by (cases segs) (auto simp: doc_cases)
  have 3: "(\<exists>r. doc args = Inr r) \<longleftrightarrow>
        (\<exists>q a. args = [ARef (CollectionRef q), a]) \<or> (\<exists>a rest. args = ADb # a # rest)"
    by (auto simp: doc_cases split: list.splits arg.splits reference.splits)
  have 4: "doc args = Inl InvalidArgument \<longleftrightarrow>
        \<not> ((\<exists>q a. args = [ARef (CollectionRef q), a]) \<or> (\<exists>a rest. args = ADb # a # rest))"
    by (auto simp: doc_cases split: list.splits arg.splits reference.splits)
  have 5: "doc args = Inl InvalidArgument" if "length args < 2"
    using that by (auto simp: doc_cases split: list.splits arg.splits reference.splits)
  have 6: "doc args = Inl InvalidArgument"
    if "args = a0 # rest0 \<and> \<not> isCollectionRef a0 \<and> \<not> isDbRef a0"
    using that by (auto simp: doc_cases split: list.splits arg.splits reference.splits)
  show ?thesis using 1 2 3 4 5 6 by blast
qed

theorem doc_invalid_argument_witness:
  "doc [ADb, AStr ''vehicles'', AStr ''v1''] = Inr (DocRef ''vehicles/v1'')
   \<and> doc [ARef (CollectionRef ''vehicles''), AStr ''v1''] = Inr (DocRef ''vehicles/v1'')
   \<and> doc [ADb] = Inl InvalidArgument
   \<and> doc [ARef (DocRef ''vehicles/v1''), AStr ''x''] = Inl InvalidArgument
   \<and> doc [ARef (CollectionRef ''vehicles''), AStr ''a'', AStr ''b''] = Inl InvalidArgument"
proof -
  have "doc (ADb # map AStr [''vehicles'', ''v1'']) = Inr (DocRef (join ''/'' [''vehicles'', ''v1'']))"
    using doc_invalid_argument [of "[]" "[]" "[''vehicles'', ''v1'']" "[]" ADb "[]"] by simp
  moreover have "doc [ARef (CollectionRef ''vehicles''), AStr ''v1''] = Inr (DocRef (''vehicles'' @ ''/'' @ ''v1''))"
    using doc_invalid_argument [of "''vehicles''" "''v1''" "[]" "[]" ADb "[]"] by blast
  moreover have "doc [ADb] = Inl InvalidArgument"
    using doc_invalid_argument [of "[]" "[]" "[]" "[ADb]" ADb "[]"] by simp
  moreover have "doc [ARef (DocRef ''vehicles/v1''), AStr ''x''] = Inl InvalidArgument"
    using doc_invalid_argument [of "[]" "[]" "[]" "[ARef (DocRef ''vehicles/v1''), AStr ''x'']"
        "ARef (DocRef ''vehicles/v1'')" "[AStr ''x'']"] by simp
  moreover have "doc [ARef (CollectionRef ''vehicles''), AStr ''a'', AStr ''b''] = Inl InvalidArgument"
    using doc_invalid_argument [of "[]" "[]" "[]"
        "[ARef (CollectionRef ''vehicles''), AStr ''a'', AStr ''b'']" ADb "[]"] by simp
  ultimately show ?thesis by simp
qed

text \<open>
  Claim C8. After any sequence of calls from the initial state in which no call
  writes a document into the collection \<open>p\<close> (it may be read, subscribed to, and be
  the target of \<open>updateDoc\<close> and \<open>deleteDoc\<close>), \<open>getDocs\<close> of \<open>p\<close> returns, and its
  snapshot has no documents, size 0 and \<open>empty\<close> true; afterwards the store holds the
  empty collection under \<open>p\<close>, and no document, listener or recorded call has
  changed. In any state whose store does not hold \<open>p\<close>, \<open>getDocs\<close> returns the snapshot
  it returns when the store holds the empty collection under \<open>p\<close>, and creates that
  collection.
\<close>

theorem lazy_collection:
  assumes "run cs initial = Some st" and "\<forall>c \<in> set cs. written c p = []"
  shows "fst (getDocs p st) =
           Inr \<lparr>cs_docs = [], cs_size = 0, cs_empty = True, cs_ref = CollectionRef p\<rparr>
       \<and> map_of (store (snd (getDocs p st))) p = Some []
       \<and> (\<forall>q. documents (snd (getDocs p st)) q = documents st q)
       \<and> listeners (snd (getDocs p st)) = listeners st
       \<and> calls (snd (getDocs p st)) = calls st
       \<and> (map_of (store st0) p = None \<longrightarrow>
            fst (getDocs p st0) = fst (getDocs p (st0\<lparr>store := AList.update p [] (store st0)\<rparr>))
            \<and> map_of (store (snd (getDocs p st0))) p = Some [])"
proof -
  have "documents initial p = []"
    by (simp add: documents_def initial_def)
  then have d: "documents st p = []"
    using run_unwritten [OF assms] by simp
  have "documents st0 p = []" if "map_of (store st0) p = None"
    using that by (simp add: documents_def)
  then show ?thesis
    using d by (simp add: getDocs_eq getDocs_def createCollectionSnapshot_eq update_conv')
qed

theorem lazy_collection_witness:
  "\<exists>st. run elsewhere initial = Some st
     \<and> fst (getDocs ''users'' st) =
           Inr \<lparr>cs_docs = [], cs_size = 0, cs_empty = True, cs_ref = CollectionRef ''users''\<rparr>
     \<and> map_of (store (snd (getDocs ''users'' st))) ''users'' = Some []"
proof -
  obtain st where r: "run elsewhere initial = Some st"
    by (simp add: elsewhere_def)
  have w: "\<forall>c \<in> set elsewhere. written c ''users'' = []"
    by (simp add: elsewhere_def split_vehicles_v1)
  show ?thesis
    using lazy_collection [OF r w] r by blast
qed

text \<open>
  Claim C9. When the collection holds no document under the id of the path,
  \<open>updateDoc\<close> throws the not-found error and, at the throw, no callback has been
  called, the listeners are unchanged and every collection holds the documents it
  held; the store itself differs at most by the empty collection created for a
  collection path it did not hold.
\<close>

theorem update_atomic_on_failure:
  assumes "splitDocPath path = (p, i)" and "stored st p i = None"
  shows "fst (updateDoc path d st) = Inl (NotFound path)
       \<and> calls (snd (updateDoc path d st)) = calls st
       \<and> listeners (snd (updateDoc path d st)) = listeners st
       \<and> (\<forall>q. documents (snd (updateDoc path d st)) q = documents st q)
       \<and> store (snd (updateDoc path d st)) =
           (if map_of (store st) p = None then store st @ [(p, [])] else store st)"
proof -
  have u: "updateDoc path d st =
      (Inl (NotFound path), st\<lparr>store := AList.update p (documents st p) (store st)\<rparr>)"
    by (simp add: updateDoc_eq [OF assms(1)] assms(2))
  have s: "AList.update p (documents st p) (store st) =
      (if map_of (store st) p = None then store st @ [(p, [])] else store st)"
    by (auto simp: documents_def update_absent update_triv)
  have d: "documents (snd (updateDoc path d st)) q = documents st q" for q
    unfolding u by simp
  have "store (snd (updateDoc path d st)) =
      (if map_of (store st) p = None then store st @ [(p, [])] else store st)"
    unfolding u using s by simp
  then show ?thesis
    using d by (simp add: u)
qed

theorem update_atomic_on_failure_witness:
  "stored oneVehicle ''vehicles'' ''v2'' = None
   \<and> fst (updateDoc ''vehicles/v2'' [(''a'', JNum 1)] oneVehicle) = Inl (NotFound ''vehicles/v2'')
   \<and> calls (snd (updateDoc ''vehicles/v2'' [(''a'', JNum 1)] oneVehicle)) = calls oneVehicle
   \<and> store (snd (updateDoc ''vehicles/v2'' [(''a'', JNum 1)] oneVehicle)) = store oneVehicle"
proof -
  have a: "stored oneVehicle ''vehicles'' ''v2'' = None"
    by (simp add: oneVehicle_def setDoc_stored [OF split_vehicles_v1] stored_initial)
  have b: "map_of (store oneVehicle) ''vehicles'' \<noteq> None"
    unfolding oneVehicle_def by (rule setDoc_has [OF split_vehicles_v1])
  show ?thesis
    using update_atomic_on_failure [OF split_vehicles_v2 a, of "[(''a'', JNum 1)]"] a b by simp
qed

text \<open>
  Claim C10, as amended. After any sequence of calls from the initial state, the
  documents of every snapshot of a collection are in the order in which their ids
  were first written into the collection since they were last removed from it: the
  order of first occurrence among the writes (\<open>addDoc\<close>, \<open>setDoc\<close>, the items of
  \<open>replaceCollection\<close>) that no later \<open>deleteDoc\<close> of that id and no later
  \<open>replaceCollection\<close> of the collection undoes. When the sequence removes nothing from
  the collection, this is the order in which the ids were first written. \<open>setDoc\<close> and
  \<open>updateDoc\<close> of a document that exists leave the order as it is; \<open>setDoc\<close> of a
  document that does not exist puts its id last.
\<close>

theorem snapshot_order:
  assumes "run cs initial = Some st"
  shows "snapshotIds p st = first_occurrences (liveWrites cs p)
       \<and> ((\<forall>c \<in> set cs. \<forall>ident. \<not> removes c p ident) \<longrightarrow>
            snapshotIds p st = first_occurrences (writtenIds cs p))
       \<and> (splitDocPath path = (q, i) \<and> stored st q i \<noteq> None \<longrightarrow>
            snapshotIds q (snd (setDoc path d merge st)) = snapshotIds q st
            \<and> snapshotIds q (snd (updateDoc path d st)) = snapshotIds q st)
       \<and> (splitDocPath path = (q, i) \<and> stored st q i = None \<longrightarrow>
            snapshotIds q (snd (setDoc path d merge st)) = snapshotIds q st @ [i])"
proof -
  have 1: "snapshotIds p st = first_occurrences (liveWrites cs p)"
    using run_keys [OF assms] by (simp add: snapshotIds_eq)
  have 2: "snapshotIds p st = first_occurrences (writtenIds cs p)"
    if "\<forall>c \<in> set cs. \<forall>ident. \<not> removes c p ident"
    using 1 liveWrites_no_removes [OF that] by simp
  have 3: "snapshotIds q (snd (setDoc path d merge st)) = snapshotIds q st
         \<and> snapshotIds q (snd (updateDoc path d st)) = snapshotIds q st"
    if "splitDocPath path = (q, i) \<and> stored st q i \<noteq> None"
    using that
    by (auto simp: snapshotIds_eq setDoc_eq updateDoc_eq update_keys_present stored_def)
  have 4: "snapshotIds q (snd (setDoc path d merge st)) = snapshotIds q st @ [i]"
    if "splitDocPath path = (q, i) \<and> stored st q i = None"
    using that
    by (auto simp: snapshotIds_eq setDoc_eq update_keys_absent stored_def)
  show ?thesis using 1 2 3 4 by blast
qed

theorem snapshot_order_witness:
  "run reinsertion initial = Some reinserted
   \<and> snapshotIds ''vehicles'' reinserted = [''v2'', ''v1'']
   \<and> stored reinserted ''vehicles'' ''v2'' \<noteq> None
   \<and> snapshotIds ''vehicles'' (snd (setDoc ''vehicles/v2'' [(''vin'', JStr ''Z'')] False reinserted))
        = [''v2'', ''v1'']
   \<and> snapshotIds ''vehicles'' (snd (updateDoc ''vehicles/v2'' [(''vin'', JStr ''Z'')] reinserted))
        = [''v2'', ''v1'']"
proof -
  have l: "first_occurrences (liveWrites reinsertion ''vehicles'') = [''v2'', ''v1'']"
    by (simp add: reinsertion_def splitDocPath_def)
  have s: "stored reinserted ''vehicles'' ''v2'' \<noteq> None"
    by (simp add: stored_reinserted)
  show ?thesis
    using snapshot_order [OF run_reinsertion, of "''vehicles''" "''vehicles/v2''" "''vehicles''" "''v2''"
        "[(''vin'', JStr ''Z'')]" False]
      run_reinsertion l s split_vehicles_v2
    by simp
qed

text \<open>
  Claim C10 as stated fails: after writing \<open>v1\<close>, writing \<open>v2\<close>, deleting \<open>v1\<close> and
  writing \<open>v1\<close> again, both documents exist, \<open>v1\<close> was first written before \<open>v2\<close>,
  and the snapshot lists \<open>v2\<close> before \<open>v1\<close>.
\<close>

theorem first_written_order_counterexample:
  "run reinsertion initial = Some reinserted
   \<and> stored reinserted ''vehicles'' ''v1'' \<noteq> None
   \<and> stored reinserted ''vehicles'' ''v2'' \<noteq> None
   \<and> first_occurrences (writtenIds reinsertion ''vehicles'') = [''v1'', ''v2'']
   \<and> snapshotIds ''vehicles'' reinserted = [''v2'', ''v1'']
   \<and> snapshotIds ''vehicles'' reinserted \<noteq> first_occurrences (writtenIds reinsertion ''vehicles'')"
proof -
  have w: "first_occurrences (writtenIds reinsertion ''vehicles'') = [''v1'', ''v2'']"
    by (simp add: reinsertion_def splitDocPath_def)
  have k: "snapshotIds ''vehicles'' reinserted = [''v2'', ''v1'']"
    by code_simp
  show ?thesis
    using run_reinsertion w k by (simp add: stored_reinserted)
qed

end
